theory Spec2Isabelle
  imports Main "HOL-Library.Sublist" "HOL-Library.Multiset"
begin

section \<open>Characters and the string primitives of the host language\<close>

text \<open>
  The SQL text is a list of characters. A \<^typ>\<open>char\<close> has eight bits, so the model covers
  the inputs whose code units are below 256; the regular-expression classes and
  \<^verbatim>\<open>trim\<close> are written out for that range (\<^verbatim>\<open>\s\<close> holds for the code units 9 to 13, 32
  and 160 there).
\<close>

definition is_space :: "char \<Rightarrow> bool" where
  "is_space c = (let n = (of_char c :: nat) in (9 \<le> n \<and> n \<le> 13) \<or> n = 32 \<or> n = 160)"

definition is_digit :: "char \<Rightarrow> bool" where
  "is_digit c = (let n = (of_char c :: nat) in 48 \<le> n \<and> n \<le> 57)"

definition is_upper :: "char \<Rightarrow> bool" where
  "is_upper c = (let n = (of_char c :: nat) in 65 \<le> n \<and> n \<le> 90)"

definition is_lower :: "char \<Rightarrow> bool" where
  "is_lower c = (let n = (of_char c :: nat) in 97 \<le> n \<and> n \<le> 122)"

text \<open>\<^verbatim>\<open>/[a-zA-Z_]/\<close>, \<^verbatim>\<open>/[a-zA-Z0-9_]/\<close> and \<^verbatim>\<open>/[\d.e+-]/\<close>.\<close>

definition is_word_start :: "char \<Rightarrow> bool" where
  "is_word_start c = (is_lower c \<or> is_upper c \<or> c = CHR ''_'')"

definition is_word_char :: "char \<Rightarrow> bool" where
  "is_word_char c = (is_lower c \<or> is_upper c \<or> is_digit c \<or> c = CHR ''_'')"

definition is_num_char :: "char \<Rightarrow> bool" where
  "is_num_char c = (is_digit c \<or> c = CHR ''.'' \<or> c = CHR ''e'' \<or> c = CHR ''+'' \<or> c = CHR ''-'')"

text \<open>
  \<^verbatim>\<open>toUpperCase\<close> on the letters a to z. The lexer applies it to words, which hold
  letters, digits and underscores only; the analyzer applies it to the whole text to look
  for an ASCII pattern, and no code unit from 128 to 255 becomes one of that pattern's
  characters.
\<close>

definition to_upper :: "char \<Rightarrow> char" where
  "to_upper c = (if is_lower c then char_of ((of_char c :: nat) - 32) else c)"

definition toUpperCase :: "string \<Rightarrow> string" where
  "toUpperCase s = map to_upper s"

definition trimStart :: "string \<Rightarrow> string" where
  "trimStart s = dropWhile is_space s"

definition trimEnd :: "string \<Rightarrow> string" where
  "trimEnd s = rev (dropWhile is_space (rev s))"

definition trim :: "string \<Rightarrow> string" where
  "trim s = trimEnd (trimStart s)"

text \<open>\<^verbatim>\<open>s.indexOf(p)\<close> on the text from the scan position on: the first index where \<open>p\<close> starts.\<close>

fun indexOf :: "string \<Rightarrow> string \<Rightarrow> nat option" where
  "indexOf p [] = (if p = [] then Some 0 else None)"
| "indexOf p (c # cs) =
     (if prefix p (c # cs) then Some 0 else map_option Suc (indexOf p cs))"

definition newline_char :: char where
  "newline_char = CHR 0x0A"

definition quote_char :: char where
  "quote_char = CHR 0x27"

definition dquote_char :: char where
  "dquote_char = CHR 0x22"

section \<open>Tokens and the lexer\<close>

datatype tok_type = Keyword | Identifier | StringT | NumberT | Operator | Symbol | Comment

record token =
  ttype :: tok_type
  tvalue :: string
  original :: "string option"

definition mk_token :: "tok_type \<Rightarrow> string \<Rightarrow> token" where
  "mk_token ty v = \<lparr>ttype = ty, tvalue = v, original = None\<rparr>"

definition KEYWORDS :: "string list" where
  "KEYWORDS =
    [''SELECT'', ''FROM'', ''WHERE'', ''AND'', ''OR'', ''NOT'', ''IN'', ''EXISTS'',
     ''JOIN'', ''LEFT'', ''RIGHT'', ''INNER'', ''OUTER'', ''CROSS'', ''FULL'',
     ''ON'', ''USING'', ''AS'', ''CASE'', ''WHEN'', ''THEN'', ''ELSE'', ''END'',
     ''INSERT'', ''INTO'', ''VALUES'', ''UPDATE'', ''SET'', ''DELETE'',
     ''CREATE'', ''TABLE'', ''ALTER'', ''DROP'', ''INDEX'', ''VIEW'',
     ''GROUP'', ''BY'', ''ORDER'', ''HAVING'', ''LIMIT'', ''OFFSET'',
     ''UNION'', ''ALL'', ''INTERSECT'', ''EXCEPT'', ''DISTINCT'',
     ''WITH'', ''RECURSIVE'', ''RETURNING'', ''CONFLICT'', ''DO'', ''NOTHING'',
     ''BEGIN'', ''COMMIT'', ''ROLLBACK'', ''TRANSACTION'',
     ''GRANT'', ''REVOKE'', ''TRUNCATE'', ''COPY'', ''EXPLAIN'', ''ANALYZE'',
     ''PRIMARY'', ''KEY'', ''FOREIGN'', ''REFERENCES'', ''CONSTRAINT'',
     ''DEFAULT'', ''NULL'', ''NOT'', ''CHECK'', ''UNIQUE'',
     ''IF'', ''BETWEEN'', ''LIKE'', ''ILIKE'', ''SIMILAR'', ''IS'',
     ''TRUE'', ''FALSE'', ''ASC'', ''DESC'', ''NULLS'', ''FIRST'', ''LAST'',
     ''CAST'', ''COALESCE'', ''NULLIF'', ''GREATEST'', ''LEAST'',
     ''COUNT'', ''SUM'', ''AVG'', ''MIN'', ''MAX'', ''ARRAY_AGG'', ''STRING_AGG'',
     ''OVER'', ''PARTITION'', ''WINDOW'', ''ROW_NUMBER'', ''RANK'', ''DENSE_RANK'',
     ''LAG'', ''LEAD'', ''FIRST_VALUE'', ''LAST_VALUE'', ''NTH_VALUE'',
     ''LATERAL'', ''FETCH'', ''NEXT'', ''ROWS'', ''ONLY'', ''FOR'',
     ''LOCK'', ''SHARE'', ''NOWAIT'', ''SKIP'', ''LOCKED'']"

definition CLAUSE_KEYWORDS :: "string list" where
  "CLAUSE_KEYWORDS =
    [''SELECT'', ''FROM'', ''WHERE'', ''JOIN'', ''LEFT JOIN'', ''RIGHT JOIN'',
     ''INNER JOIN'', ''OUTER JOIN'', ''CROSS JOIN'', ''FULL JOIN'',
     ''FULL OUTER JOIN'', ''LEFT OUTER JOIN'', ''RIGHT OUTER JOIN'',
     ''GROUP BY'', ''ORDER BY'', ''HAVING'', ''LIMIT'', ''OFFSET'',
     ''UNION'', ''UNION ALL'', ''INTERSECT'', ''EXCEPT'',
     ''INSERT INTO'', ''VALUES'', ''UPDATE'', ''SET'', ''DELETE FROM'',
     ''ON'', ''USING'', ''RETURNING'', ''WITH'', ''AND'', ''OR'',
     ''ON CONFLICT'', ''DO'', ''WINDOW'']"

definition two_char_ops :: "string list" where
  "two_char_ops = [''!='', ''<>'', ''<='', ''>='', ''::'', ''||'', ''->'', ''=>'']"

text \<open>
  The repository holds the lexer, the formatter and the analyzer twice: in the node module
  (\<^verbatim>\<open>tokenize\<close>, \<^verbatim>\<open>format\<close>, \<^verbatim>\<open>analyze\<close>) and in the browser bundle (\<^verbatim>\<open>tokenize\<close>,
  \<^verbatim>\<open>formatSQL\<close>, \<^verbatim>\<open>analyzeSQL\<close>). Where the two texts are the same statement for
  statement the model has one definition with the variant as a parameter.
\<close>

datatype variant = Node | Bundle

text \<open>
  The body of a single-quoted string after its opening quote: up to and including the
  next quote that is not doubled, or to the end of the text. The result is the consumed
  text and what is left.
\<close>

fun string_body :: "string \<Rightarrow> string \<times> string" where
  "string_body [] = ([], [])"
| "string_body [c] = ([c], [])"
| "string_body (c # d # cs) =
     (if c = quote_char \<and> d = quote_char then
        (case string_body cs of (b, r) \<Rightarrow> (c # d # b, r))
      else if c = quote_char then ([c], d # cs)
      else (case string_body (d # cs) of (b, r) \<Rightarrow> (c # b, r)))"

text \<open>
  \<^verbatim>\<open>s.slice(i).match(/^\$([a-zA-Z_]*)\$/)\<close> at a dollar sign followed by \<open>cs\<close>: the
  whole marker, when there is one.
\<close>

definition dollar_tag :: "string \<Rightarrow> string option" where
  "dollar_tag cs =
     (case dropWhile is_word_start cs of
        [] \<Rightarrow> None
      | d # _ \<Rightarrow> if d = CHR ''$'' then Some (CHR ''$'' # takeWhile is_word_start cs @ ''$'')
                 else None)"

text \<open>The operator branches at the end of the loop body, in each file's order.\<close>

definition lex_operator :: "variant \<Rightarrow> char \<Rightarrow> string \<Rightarrow> token option \<times> string" where
  "lex_operator v c cs =
     (let s = c # cs; twoChar = take 2 s; threeChar = take 3 s in
      case v of
        Node \<Rightarrow>
          if twoChar \<in> set two_char_ops then (Some (mk_token Operator twoChar), drop 2 s)
          else if threeChar = ''->>'' then (Some (mk_token Operator threeChar), drop 3 s)
          else (Some (mk_token Symbol [c]), cs)
      | Bundle \<Rightarrow>
          if threeChar = ''->>'' then (Some (mk_token Operator threeChar), drop 3 s)
          else if twoChar \<in> set two_char_ops then (Some (mk_token Operator twoChar), drop 2 s)
          else (Some (mk_token Symbol [c]), cs))"

text \<open>
  One iteration of the lexer's loop at a scan position inside the text: \<open>c\<close> is the
  character at the position and \<open>cs\<close> the text after it. The result is the token pushed
  (none for whitespace) and the text from the new scan position on; a position past the
  end of the text is the empty rest.
\<close>

definition lex_line_comment :: "string \<Rightarrow> token option \<times> string" where
  "lex_line_comment s =
     (case indexOf [newline_char] s of
        None \<Rightarrow> (Some (mk_token Comment (trim s)), [])
      | Some e \<Rightarrow> (Some (mk_token Comment (trim (take e s))), drop (e + 1) s))"

definition lex_block_comment :: "string \<Rightarrow> token option \<times> string" where
  "lex_block_comment s =
     (case indexOf ''*/'' (drop 2 s) of
        None \<Rightarrow> (Some (mk_token Comment s), [])
      | Some k \<Rightarrow> (Some (mk_token Comment (take (k + 4) s)), drop (k + 4) s))"

definition lex_string :: "char \<Rightarrow> string \<Rightarrow> token option \<times> string" where
  "lex_string c cs = (case string_body cs of (b, r) \<Rightarrow> (Some (mk_token StringT (c # b)), r))"

text \<open>The dollar-quoted string; \<open>None\<close> when the loop body falls through to the later branches.\<close>

definition lex_dollar :: "char \<Rightarrow> string \<Rightarrow> (token option \<times> string) option" where
  "lex_dollar c cs =
     (case dollar_tag cs of
        None \<Rightarrow> None
      | Some tag \<Rightarrow>
          (case indexOf tag (drop (length tag) (c # cs)) of
             None \<Rightarrow> None
           | Some k \<Rightarrow>
               Some (Some (mk_token StringT (take (k + 2 * length tag) (c # cs))),
                     drop (k + 2 * length tag) (c # cs))))"

definition lex_number :: "string \<Rightarrow> token option \<times> string" where
  "lex_number s = (Some (mk_token NumberT (takeWhile is_num_char s)), dropWhile is_num_char s)"

definition lex_word :: "string \<Rightarrow> token option \<times> string" where
  "lex_word s =
     (let word = takeWhile is_word_char s; upper = toUpperCase word in
      if upper \<in> set KEYWORDS then
        (Some \<lparr>ttype = Keyword, tvalue = upper, original = Some word\<rparr>,
         dropWhile is_word_char s)
      else (Some (mk_token Identifier word), dropWhile is_word_char s))"

definition lex_quoted :: "char \<Rightarrow> string \<Rightarrow> token option \<times> string" where
  "lex_quoted c cs =
     (Some (mk_token Identifier (c # takeWhile (\<lambda>x. x \<noteq> dquote_char) cs
              @ take 1 (dropWhile (\<lambda>x. x \<noteq> dquote_char) cs))),
      drop 1 (dropWhile (\<lambda>x. x \<noteq> dquote_char) cs))"

text \<open>The branches after the dollar-quoted string, which that branch can fall through to.\<close>

definition lex_tail :: "variant \<Rightarrow> char \<Rightarrow> string \<Rightarrow> token option \<times> string" where
  "lex_tail v c cs =
     (if is_digit c \<or> (c = CHR ''.'' \<and> (case cs of [] \<Rightarrow> False | d # _ \<Rightarrow> is_digit d))
      then lex_number (c # cs)
      else if is_word_start c then lex_word (c # cs)
      else if c = dquote_char then lex_quoted c cs
      else lex_operator v c cs)"

definition lex_step :: "variant \<Rightarrow> char \<Rightarrow> string \<Rightarrow> token option \<times> string" where
  "lex_step v c cs =
     (if is_space c then (None, cs)
      else if c = CHR ''-'' \<and> take 1 cs = ''-'' then lex_line_comment (c # cs)
      else if c = CHR ''/'' \<and> take 1 cs = ''*'' then lex_block_comment (c # cs)
      else if c = quote_char then lex_string c cs
      else
        (case (if c = CHR ''$'' then lex_dollar c cs else None) of
           Some r \<Rightarrow> r
         | None \<Rightarrow> lex_tail v c cs))"

subsection \<open>Every iteration moves the scan position forward\<close>

lemma string_body_length: "length (snd (string_body cs)) \<le> length cs"
  by (induction cs rule: string_body.induct) (auto split: prod.splits)

lemma lex_operator_length: "length (snd (lex_operator v c cs)) \<le> length cs"
  by (cases v) (auto simp: lex_operator_def Let_def)

lemma lex_line_comment_length: "length (snd (lex_line_comment (c # cs))) \<le> length cs"
  by (simp add: lex_line_comment_def split: option.splits)

lemma lex_block_comment_length: "length (snd (lex_block_comment (c # cs))) \<le> length cs"
  by (simp add: lex_block_comment_def split: option.splits)

lemma lex_string_length: "length (snd (lex_string c cs)) \<le> length cs"
  using string_body_length [of cs] by (cases "string_body cs") (simp add: lex_string_def)

lemma dollar_tag_length: "dollar_tag cs = Some tag \<Longrightarrow> 2 \<le> length tag"
  by (auto simp: dollar_tag_def split: list.splits if_splits)

lemma lex_dollar_length: "lex_dollar c cs = Some r \<Longrightarrow> length (snd r) \<le> length cs"
  by (auto simp: lex_dollar_def split: option.splits dest!: dollar_tag_length)

lemma lex_number_length:
  "is_num_char c \<Longrightarrow> length (snd (lex_number (c # cs))) \<le> length cs"
  by (simp add: lex_number_def length_dropWhile_le)

lemma lex_word_length:
  "is_word_char c \<Longrightarrow> length (snd (lex_word (c # cs))) \<le> length cs"
  by (simp add: lex_word_def Let_def length_dropWhile_le)

lemma lex_quoted_length: "length (snd (lex_quoted c cs)) \<le> length cs"
  using length_dropWhile_le [of "\<lambda>x. x \<noteq> dquote_char" cs] by (simp add: lex_quoted_def)

lemma if_cases_rule: "(b \<Longrightarrow> P x) \<Longrightarrow> (\<not> b \<Longrightarrow> P y) \<Longrightarrow> P (if b then x else y)"
  by simp

lemma lex_tail_length: "length (snd (lex_tail v c cs)) \<le> length cs"
proof -
  have num: "is_digit c \<or> c = CHR ''.'' \<Longrightarrow> is_num_char c"
    by (auto simp: is_num_char_def)
  have word: "is_word_start c \<Longrightarrow> is_word_char c"
    by (auto simp: is_word_start_def is_word_char_def)
  show ?thesis
    unfolding lex_tail_def
    apply (rule if_cases_rule)
     apply (rule lex_number_length, rule num, blast)
    apply (rule if_cases_rule)
     apply (rule lex_word_length, erule word)
    apply (rule if_cases_rule)
     apply (rule lex_quoted_length)
    apply (rule lex_operator_length)
    done
qed

lemma lex_step_length: "length (snd (lex_step v c cs)) \<le> length cs"
  unfolding lex_step_def
  apply (rule if_cases_rule, simp)
  apply (rule if_cases_rule, rule lex_line_comment_length)
  apply (rule if_cases_rule, rule lex_block_comment_length)
  apply (rule if_cases_rule, rule lex_string_length)
  apply (cases "c = CHR ''$''")
   apply (cases "lex_dollar c cs")
    apply (simp_all add: lex_tail_length lex_dollar_length)
  done

function tokenize_v :: "variant \<Rightarrow> string \<Rightarrow> token list" where
  "tokenize_v v [] = []"
| "tokenize_v v (c # cs) =
     (case lex_step v c cs of
        (None, r) \<Rightarrow> tokenize_v v r
      | (Some t, r) \<Rightarrow> t # tokenize_v v r)"
  by pat_completeness auto

termination tokenize_v
proof (relation "measure (\<lambda>(v, s). length s)")
  show "wf (measure (\<lambda>(v, s). length s))" by simp
next
  fix v c cs x r
  assume "(x, r) = lex_step v c cs"
  then have "r = snd (lex_step v c cs)" by (metis snd_conv)
  then show "((v, r), (v, c # cs)) \<in> measure (\<lambda>(v, s). length s)"
    using lex_step_length [of v c cs] by simp
next
  fix v c cs x r t
  assume "(x, r) = lex_step v c cs"
  then have "r = snd (lex_step v c cs)" by (metis snd_conv)
  then show "((v, r), (v, c # cs)) \<in> measure (\<lambda>(v, s). length s)"
    using lex_step_length [of v c cs] by simp
qed

definition tokenize :: "string \<Rightarrow> token list" where
  "tokenize sql = tokenize_v Node sql"


section \<open>The formatter\<close>

text \<open>
  The state of one call of \<^verbatim>\<open>format\<close>. The host language's numbers are not bounded
  below, so \<open>indent\<close> and \<open>parenDepth\<close> are integers here and that they stay
  non-negative is a theorem, not a property of the type.
\<close>

record fstate =
  out :: string
  indent :: int
  lineStart :: bool
  prevToken :: "token option"
  parenDepth :: int

definition init_state :: fstate where
  "init_state = \<lparr>out = [], indent = 0, lineStart = True, prevToken = None, parenDepth = 0\<rparr>"

text \<open>
  \<^verbatim>\<open>'  '.repeat(n)\<close> throws a RangeError for a negative count; the exception is the value
  \<open>None\<close>, and it leaves \<^verbatim>\<open>format\<close> as it is not caught.
\<close>

definition repeat_indent :: "int \<Rightarrow> string option" where
  "repeat_indent n = (if n < 0 then None else Some (concat (replicate (nat n) ''  '')))"

definition newline :: "fstate \<Rightarrow> fstate option" where
  "newline st =
     (case repeat_indent (indent st) of
        None \<Rightarrow> None
      | Some pad \<Rightarrow> Some (st\<lparr>out := trimEnd (out st) @ newline_char # pad, lineStart := True\<rparr>))"

definition endsWith :: "string \<Rightarrow> char \<Rightarrow> bool" where
  "endsWith s c = (s \<noteq> [] \<and> last s = c)"

definition space :: "fstate \<Rightarrow> fstate" where
  "space st =
     (if \<not> lineStart st \<and> out st \<noteq> [] \<and> \<not> endsWith (out st) CHR '' ''
         \<and> \<not> endsWith (out st) newline_char \<and> \<not> endsWith (out st) CHR ''(''
      then st\<lparr>out := out st @ '' ''\<rparr> else st)"

definition emit :: "string \<Rightarrow> fstate \<Rightarrow> fstate" where
  "emit s st = st\<lparr>out := out st @ s\<rparr>"

definition is_keyword :: "string \<Rightarrow> token \<Rightarrow> bool" where
  "is_keyword k t = (ttype t = Keyword \<and> tvalue t = k)"

definition is_symbol :: "string \<Rightarrow> token \<Rightarrow> bool" where
  "is_symbol k t = (ttype t = Symbol \<and> tvalue t = k)"

text \<open>\<^verbatim>\<open>t.value || t.original || ''\<close>.\<close>

definition token_text :: "token \<Rightarrow> string" where
  "token_text t =
     (if tvalue t \<noteq> [] then tvalue t else case original t of Some w \<Rightarrow> w | None \<Rightarrow> [])"

definition compound_of :: "token \<Rightarrow> token option \<Rightarrow> string option" where
  "compound_of t nxt =
     (case nxt of
        None \<Rightarrow> None
      | Some n \<Rightarrow>
          if ttype t = Keyword \<and> ttype n = Keyword then
            (let pair = tvalue t @ '' '' @ tvalue n in
             if pair \<in> set CLAUSE_KEYWORDS then Some pair else None)
          else None)"

text \<open>The branches of the loop body, in the order of the source.\<close>

definition fmt_comment :: "fstate \<Rightarrow> token \<Rightarrow> fstate option" where
  "fmt_comment st t =
     (case newline st of
        None \<Rightarrow> None
      | Some s1 \<Rightarrow>
          (case newline (emit (tvalue t) s1) of
             None \<Rightarrow> None
           | Some s2 \<Rightarrow> Some (s2\<lparr>prevToken := Some t\<rparr>)))"

definition fmt_lparen :: "fstate \<Rightarrow> token \<Rightarrow> token option \<Rightarrow> fstate option" where
  "fmt_lparen st t nxt =
     (let s1 = (if (case prevToken st of
                      None \<Rightarrow> False
                    | Some p \<Rightarrow> ttype p = Identifier \<or> ttype p = Keyword)
                then st else space st);
          s2 = (emit ''('' s1)\<lparr>parenDepth := parenDepth s1 + 1\<rparr>
      in case (if (case nxt of None \<Rightarrow> False | Some n \<Rightarrow> is_keyword ''SELECT'' n)
               then newline (s2\<lparr>indent := indent s2 + 1\<rparr>) else Some s2) of
           None \<Rightarrow> None
         | Some s3 \<Rightarrow> Some (s3\<lparr>prevToken := Some t, lineStart := False\<rparr>))"

text \<open>
  The node module's \<^verbatim>\<open>format\<close> looks at the token before a closing parenthesis; the
  bundle's \<^verbatim>\<open>formatSQL\<close> has no such statement.
\<close>

definition reindent_before_rparen :: "variant \<Rightarrow> fstate \<Rightarrow> bool" where
  "reindent_before_rparen v st =
     (v = Node \<and>
      (case prevToken st of
         None \<Rightarrow> False
       | Some p \<Rightarrow> ttype p = Keyword \<and> tvalue p \<in> set [''LIMIT'', ''OFFSET'', ''ASC'', ''DESC'']))"

definition fmt_rparen :: "variant \<Rightarrow> fstate \<Rightarrow> token \<Rightarrow> fstate option" where
  "fmt_rparen v st t =
     (let s1 = (if parenDepth st > 0 then st\<lparr>parenDepth := parenDepth st - 1\<rparr> else st)
      in case (if reindent_before_rparen v s1
               then newline (s1\<lparr>indent := max 0 (indent s1 - 1)\<rparr>) else Some s1) of
           None \<Rightarrow> None
         | Some s2 \<Rightarrow> Some ((emit '')'' s2)\<lparr>prevToken := Some t, lineStart := False\<rparr>))"

definition fmt_comma :: "fstate \<Rightarrow> token \<Rightarrow> fstate option" where
  "fmt_comma st t =
     (let s1 = emit '','' st
      in case (if parenDepth s1 = 0 then map_option (emit ''  '') (newline s1)
               else Some (emit '' '' s1)) of
           None \<Rightarrow> None
         | Some s2 \<Rightarrow> Some (s2\<lparr>prevToken := Some t, lineStart := False\<rparr>))"

definition fmt_semicolon :: "fstate \<Rightarrow> token \<Rightarrow> fstate option" where
  "fmt_semicolon st t =
     Some ((emit ('';'' @ [newline_char]) st)
             \<lparr>indent := 0, lineStart := True, prevToken := Some t\<rparr>)"

definition fmt_compound :: "fstate \<Rightarrow> string \<Rightarrow> fstate option" where
  "fmt_compound st compound =
     (case (if parenDepth st = 0 then
              newline (if compound \<in> set [''UNION ALL'', ''UNION'', ''INTERSECT'', ''EXCEPT'']
                       then st\<lparr>indent := 0\<rparr> else st)
            else Some (space st)) of
        None \<Rightarrow> None
      | Some s1 \<Rightarrow>
          Some ((emit compound s1)
                  \<lparr>prevToken := Some \<lparr>ttype = Keyword, tvalue = compound, original = None\<rparr>,
                   lineStart := False\<rparr>))"

text \<open>
  The keyword branch. The node module has a branch of its own for \<^verbatim>\<open>SELECT\<close> after
  \<^verbatim>\<open>UNION ALL\<close>, with the statements of the branch after it; the bundle has only the latter.
\<close>

definition fmt_keyword :: "variant \<Rightarrow> fstate \<Rightarrow> token \<Rightarrow> fstate option" where
  "fmt_keyword v st t =
     (case (if tvalue t \<in> set CLAUSE_KEYWORDS \<and> parenDepth st = 0 then
              (if tvalue t \<in> set [''AND'', ''OR''] then
                 map_option (emit (''  '' @ tvalue t)) (newline st)
               else if v = Node \<and> tvalue t = ''SELECT'' \<and>
                   (case prevToken st of None \<Rightarrow> False | Some p \<Rightarrow> is_keyword ''UNION ALL'' p)
               then map_option (emit (tvalue t)) (newline st)
               else map_option (emit (tvalue t)) (newline st))
            else Some (emit (tvalue t) (space st))) of
        None \<Rightarrow> None
      | Some s1 \<Rightarrow> Some (s1\<lparr>prevToken := Some t, lineStart := False\<rparr>))"

definition fmt_default :: "fstate \<Rightarrow> token \<Rightarrow> fstate option" where
  "fmt_default st t =
     (let s1 =
        (if ttype t = Operator \<and> (tvalue t = ''::'' \<or> tvalue t = ''->'' \<or> tvalue t = ''->>'')
         then emit (tvalue t) st
         else if ttype t = Symbol \<and> tvalue t = ''.''
         then st\<lparr>out := trimEnd (out st) @ ''.''\<rparr>
         else if (case prevToken st of None \<Rightarrow> False | Some p \<Rightarrow> is_symbol ''.'' p)
         then emit (token_text t) st
         else emit (token_text t) (space st))
      in Some (s1\<lparr>prevToken := Some t, lineStart := False\<rparr>))"

text \<open>
  One iteration of the loop: the new state, and whether the iteration also consumed the
  next token (\<^verbatim>\<open>i++\<close> in the compound branch).
\<close>

definition fmt_step ::
  "variant \<Rightarrow> fstate \<Rightarrow> token \<Rightarrow> token option \<Rightarrow> (fstate \<times> bool) option" where
  "fmt_step v st t nxt =
     (if ttype t = Comment then map_option (\<lambda>s. (s, False)) (fmt_comment st t)
      else if is_symbol ''('' t then map_option (\<lambda>s. (s, False)) (fmt_lparen st t nxt)
      else if is_symbol '')'' t then map_option (\<lambda>s. (s, False)) (fmt_rparen v st t)
      else if is_symbol '','' t then map_option (\<lambda>s. (s, False)) (fmt_comma st t)
      else if is_symbol '';'' t then map_option (\<lambda>s. (s, False)) (fmt_semicolon st t)
      else
        (case compound_of t nxt of
           Some compound \<Rightarrow> map_option (\<lambda>s. (s, True)) (fmt_compound st compound)
         | None \<Rightarrow>
             if ttype t = Keyword then map_option (\<lambda>s. (s, False)) (fmt_keyword v st t)
             else map_option (\<lambda>s. (s, False)) (fmt_default st t)))"

definition lookahead :: "token list \<Rightarrow> token option" where
  "lookahead ts = (case ts of [] \<Rightarrow> None | n # _ \<Rightarrow> Some n)"

function fmt_loop :: "variant \<Rightarrow> fstate \<Rightarrow> token list \<Rightarrow> fstate option" where
  "fmt_loop v st [] = Some st"
| "fmt_loop v st (t # ts) =
     (case fmt_step v st t (lookahead ts) of
        None \<Rightarrow> None
      | Some (st', skip) \<Rightarrow> fmt_loop v st' (if skip then drop 1 ts else ts))"
  by pat_completeness auto

termination fmt_loop
  by (relation "measure (\<lambda>(v, st, ts). length ts)") auto

text \<open>The states at the head of every iteration of the loop, and the one it ends in.\<close>

function fmt_trace :: "variant \<Rightarrow> fstate \<Rightarrow> token list \<Rightarrow> fstate list" where
  "fmt_trace v st [] = [st]"
| "fmt_trace v st (t # ts) =
     st # (case fmt_step v st t (lookahead ts) of
             None \<Rightarrow> []
           | Some (st', skip) \<Rightarrow> fmt_trace v st' (if skip then drop 1 ts else ts))"
  by pat_completeness auto

termination fmt_trace
  by (relation "measure (\<lambda>(v, st, ts). length ts)") auto

definition format_tokens :: "variant \<Rightarrow> token list \<Rightarrow> string option" where
  "format_tokens v ts =
     (case fmt_loop v init_state ts of
        None \<Rightarrow> None
      | Some st \<Rightarrow> Some (trim (out st) @ [newline_char]))"

definition format :: "string \<Rightarrow> string option" where
  "format sql = format_tokens Node (tokenize sql)"


section \<open>The analyzer\<close>

datatype level = Info | Warn | Error

record finding =
  level :: level
  message :: string

subsection \<open>The regular expressions, as scans over the text\<close>

text \<open>
  A literal of upper-case letters and punctuation under the flag \<^verbatim>\<open>i\<close>, at the start of
  \<open>s\<close>: what follows the match.
\<close>

definition match_ci :: "string \<Rightarrow> string \<Rightarrow> string option" where
  "match_ci p s =
     (if toUpperCase (take (length p) s) = p then Some (drop (length p) s) else None)"

text \<open>\<^verbatim>\<open>re.test(s)\<close> for a pattern that is tried at every position from left to right.\<close>

fun test_anywhere :: "(string \<Rightarrow> bool) \<Rightarrow> string \<Rightarrow> bool" where
  "test_anywhere P [] = P []"
| "test_anywhere P (c # cs) = (P (c # cs) \<or> test_anywhere P cs)"

text \<open>\<^verbatim>\<open>s.match(re)\<close> without the flag \<^verbatim>\<open>g\<close>: the leftmost match.\<close>

fun first_match :: "(string \<Rightarrow> 'a option) \<Rightarrow> string \<Rightarrow> 'a option" where
  "first_match f [] = f []"
| "first_match f (c # cs) =
     (case f (c # cs) of Some m \<Rightarrow> Some m | None \<Rightarrow> first_match f cs)"

definition str_includes :: "string \<Rightarrow> string \<Rightarrow> bool" where
  "str_includes s p = (indexOf p s \<noteq> None)"

text \<open>\<^verbatim>\<open>/NOT\s+IN\s*\(/i\<close> at the start of \<open>s\<close>.\<close>

definition not_in_at :: "string \<Rightarrow> bool" where
  "not_in_at s =
     (case match_ci ''NOT'' s of
        None \<Rightarrow> False
      | Some r \<Rightarrow>
          takeWhile is_space r \<noteq> [] \<and>
          (case match_ci ''IN'' (dropWhile is_space r) of
             None \<Rightarrow> False
           | Some r2 \<Rightarrow> take 1 (dropWhile is_space r2) = ''(''))"


text \<open>\<^verbatim>\<open>/OFFSET\s+(\d+)/i\<close> at the start of \<open>s\<close>: the digits of the group.\<close>

definition offset_at :: "string \<Rightarrow> string option" where
  "offset_at s =
     (case match_ci ''OFFSET'' s of
        None \<Rightarrow> None
      | Some r \<Rightarrow>
          if takeWhile is_space r \<noteq> [] \<and> takeWhile is_digit (dropWhile is_space r) \<noteq> []
          then Some (takeWhile is_digit (dropWhile is_space r))
          else None)"

definition offset_match :: "string \<Rightarrow> string option" where
  "offset_match sql = first_match offset_at sql"

text \<open>
  \<^verbatim>\<open>parseInt\<close> of a string of decimal digits. The host language rounds the value to a
  double; the rounding is monotone and keeps 1000 and 1001 as they are, so the comparison
  with 1000 is that of the exact value.
\<close>

definition parseInt :: "string \<Rightarrow> nat" where
  "parseInt ds = foldl (\<lambda>n c. 10 * n + (of_char c - 48)) 0 ds"

text \<open>
  \<^verbatim>\<open>/\bnow\(\)/i\<close>: the flag says whether the character before the scan position is a
  word character.
\<close>

fun now_scan :: "bool \<Rightarrow> string \<Rightarrow> bool" where
  "now_scan w [] = False"
| "now_scan w (c # cs) =
     ((\<not> w \<and> match_ci ''NOW()'' (c # cs) \<noteq> None) \<or> now_scan (is_word_char c) cs)"

text \<open>\<^verbatim>\<open>/WHERE[\s\S]*?COALESCE/i\<close> at the start of \<open>s\<close>.\<close>

definition where_coalesce_at :: "string \<Rightarrow> bool" where
  "where_coalesce_at s =
     (case match_ci ''WHERE'' s of
        None \<Rightarrow> False
      | Some r \<Rightarrow> test_anywhere (\<lambda>u. match_ci ''COALESCE'' u \<noteq> None) r)"

text \<open>\<^verbatim>\<open>(sql.match(/::/g) || []).length\<close>: the matches from left to right, none overlapping.\<close>

fun castCount :: "string \<Rightarrow> nat" where
  "castCount (c # d # cs) =
     (if c = CHR '':'' \<and> d = CHR '':'' then Suc (castCount cs) else castCount (d # cs))"
| "castCount cs = 0"

text \<open>A number in a template string: its decimal digits.\<close>

function show_nat :: "nat \<Rightarrow> string" where
  "show_nat n =
     (if n < 10 then [char_of (48 + n)] else show_nat (n div 10) @ [char_of (48 + n mod 10)])"
  by pat_completeness auto

termination show_nat
  by (relation "measure id") auto

subsection \<open>The messages\<close>

definition select_star_finding :: finding where
  "select_star_finding = \<lparr>level = Warn, message =
     ''SELECT * can cause performance issues and breaks when columns change. Specify columns explicitly.''\<rparr>"

definition update_finding :: finding where
  "update_finding = \<lparr>level = Error, message =
     ''UPDATE without WHERE clause will modify ALL rows in the table.''\<rparr>"

definition delete_finding :: finding where
  "delete_finding = \<lparr>level = Error, message =
     ''DELETE without WHERE clause will remove ALL rows from the table.''\<rparr>"

definition like_finding :: finding where
  "like_finding = \<lparr>level = Warn, message =
     ''LIKE with leading wildcard ('' @ [quote_char] @ ''%...'' @ [quote_char] @
     '') cannot use a B-tree index. Consider pg_trgm or full-text search.''\<rparr>"

definition not_in_finding :: finding where
  "not_in_finding = \<lparr>level = Warn, message =
     ''NOT IN with subquery can return unexpected results if subquery returns NULL. Use NOT EXISTS instead.''\<rparr>"

definition order_by_finding :: finding where
  "order_by_finding = \<lparr>level = Info, message =
     ''ORDER BY without LIMIT sorts the entire result set. Add LIMIT if you only need a subset.''\<rparr>"

definition cast_tail :: string where
  "cast_tail = '' explicit casts detected. Excessive casting may indicate schema/type mismatches.''"

definition cast_finding :: "nat \<Rightarrow> finding" where
  "cast_finding n = \<lparr>level = Info, message = show_nat n @ cast_tail\<rparr>"

text \<open>The dash of the node module's message is U+2014, written here in UTF-8.\<close>

definition offset_finding :: "string \<Rightarrow> finding" where
  "offset_finding ds = \<lparr>level = Warn, message =
     ''Large OFFSET ('' @ ds @ '') is slow '' @ [CHR 0xE2, CHR 0x80, CHR 0x94] @
     '' Postgres must scan and discard rows. Use keyset pagination instead.''\<rparr>"

definition offset_finding_bundle :: "string \<Rightarrow> finding" where
  "offset_finding_bundle ds = \<lparr>level = Warn, message =
     ''Large OFFSET ('' @ ds @ '') is slow. Use keyset pagination instead.''\<rparr>"

definition join_finding :: "nat \<Rightarrow> finding" where
  "join_finding n = \<lparr>level = Info, message =
     show_nat n @ '' JOINs detected. Consider if all are necessary '' @
     [CHR 0xE2, CHR 0x80, CHR 0x94] @ '' each join multiplies the planner'' @ [quote_char] @
     ''s work.''\<rparr>"

definition join_finding_bundle :: "nat \<Rightarrow> finding" where
  "join_finding_bundle n = \<lparr>level = Info, message =
     show_nat n @ '' JOINs detected. Consider if all are necessary.''\<rparr>"

definition now_finding :: finding where
  "now_finding = \<lparr>level = Info, message =
     ''now() returns the same value for the entire transaction. Use clock_timestamp() if you need wall-clock time.''\<rparr>"

definition now_finding_bundle :: finding where
  "now_finding_bundle = \<lparr>level = Info, message =
     ''now() returns the same value for the entire transaction. Use clock_timestamp() for wall-clock time.''\<rparr>"

definition coalesce_finding :: finding where
  "coalesce_finding = \<lparr>level = Info, message =
     ''COALESCE in WHERE clause may prevent index usage. Consider restructuring with IS NULL / IS NOT NULL.''\<rparr>"

definition coalesce_finding_bundle :: finding where
  "coalesce_finding_bundle = \<lparr>level = Info, message =
     ''COALESCE in WHERE clause may prevent index usage.''\<rparr>"

subsection \<open>The loops over the tokens\<close>

text \<open>
  The loop for \<^verbatim>\<open>SELECT *\<close> runs over every index but the last; the findings it pushes
  in order.
\<close>

definition push_if :: "bool \<Rightarrow> finding \<Rightarrow> finding list" where
  "push_if b f = (if b then [f] else [])"

text \<open>\<^verbatim>\<open>j < tokens.length\<close> and the token at \<open>j\<close> is the symbol \<^verbatim>\<open>*\<close>.\<close>

definition star_at :: "token list \<Rightarrow> bool" where
  "star_at ts = (case ts of [] \<Rightarrow> False | s # _ \<Rightarrow> is_symbol ''*'' s)"

fun select_star_loop :: "token list \<Rightarrow> finding list" where
  "select_star_loop (t # n # ts) =
     push_if (is_keyword ''SELECT'' t
              \<and> star_at (if is_keyword ''DISTINCT'' n then ts else n # ts))
       select_star_finding
     @ select_star_loop (n # ts)"
| "select_star_loop ts = []"

text \<open>The inner loop from \<^verbatim>\<open>j = i + 1\<close>: a \<^verbatim>\<open>WHERE\<close> before the next semicolon.\<close>

fun hasWhere :: "token list \<Rightarrow> bool" where
  "hasWhere [] = False"
| "hasWhere (t # ts) =
     (if is_symbol '';'' t then False
      else if is_keyword ''WHERE'' t then True
      else hasWhere ts)"

fun no_where_loop :: "string \<Rightarrow> finding \<Rightarrow> token list \<Rightarrow> finding list" where
  "no_where_loop k f [] = []"
| "no_where_loop k f (t # ts) =
     (if is_keyword k t \<and> \<not> hasWhere ts then [f] else []) @ no_where_loop k f ts"


definition joinCount :: "token list \<Rightarrow> nat" where
  "joinCount ts = length (filter (is_keyword ''JOIN'') ts)"

subsection \<open>The two analyzers\<close>

definition offset_rule :: "(string \<Rightarrow> finding) \<Rightarrow> string \<Rightarrow> finding list" where
  "offset_rule mk sql =
     (case offset_match sql of
        None \<Rightarrow> []
      | Some ds \<Rightarrow> push_if (parseInt ds > 1000) (mk ds))"

definition analyze :: "string \<Rightarrow> finding list" where
  "analyze sql =
     (let upper = toUpperCase sql; tokens = tokenize sql in
      select_star_loop tokens
      @ no_where_loop ''UPDATE'' update_finding tokens
      @ no_where_loop ''DELETE'' delete_finding tokens
      @ push_if (str_includes upper (''LIKE '' @ [quote_char] @ ''%'')
              \<or> str_includes upper (''LIKE '' @ [quote_char] @ ''%'')) like_finding
      @ push_if (test_anywhere not_in_at sql) not_in_finding
      @ push_if (list_ex (is_keyword ''ORDER'') tokens
              \<and> \<not> list_ex (is_keyword ''LIMIT'') tokens
              \<and> \<not> list_ex (is_keyword ''FETCH'') tokens) order_by_finding
      @ push_if (castCount sql > 3) (cast_finding (castCount sql))
      @ offset_rule offset_finding sql
      @ push_if (joinCount tokens \<ge> 5) (join_finding (joinCount tokens))
      @ push_if (now_scan False sql) now_finding
      @ push_if (test_anywhere where_coalesce_at sql) coalesce_finding)"


section \<open>Predicates of the statements\<close>

text \<open>
  The definitions below are not code of the repository: the theorems use them to say
  what the code does.
\<close>

text \<open>The invariant of the formatter's state.\<close>

definition levels_ok :: "fstate \<Rightarrow> bool" where
  "levels_ok st = (0 \<le> indent st \<and> 0 \<le> parenDepth st)"


definition erase :: "token \<Rightarrow> token" where
  "erase t = t\<lparr>original := None\<rparr>"

definition erase_state :: "fstate \<Rightarrow> fstate" where
  "erase_state st = st\<lparr>prevToken := map_option erase (prevToken st)\<rparr>"

text \<open>A finding of level \<^verbatim>\<open>error\<close>.\<close>

definition is_error :: "finding \<Rightarrow> bool" where
  "is_error f = (level f = Error)"

text \<open>
  What the inner loop of the two rules computes: some \<^verbatim>\<open>WHERE\<close> keyword stands in the
  token sequence with no semicolon before it.
\<close>

definition where_before_semicolon :: "token list \<Rightarrow> bool" where
  "where_before_semicolon ts =
     (\<exists>j < length ts. is_keyword ''WHERE'' (ts ! j) \<and> (\<forall>m < j. \<not> is_symbol '';'' (ts ! m)))"

text \<open>
  The token at index \<open>i\<close> is the keyword \<open>k\<close> and no \<^verbatim>\<open>WHERE\<close> keyword stands between it
  and the next semicolon or the end of the input.
\<close>

definition offending :: "string \<Rightarrow> token list \<Rightarrow> nat \<Rightarrow> bool" where
  "offending k ts i = (is_keyword k (ts ! i) \<and> \<not> where_before_semicolon (drop (Suc i) ts))"

text \<open>The message of the finding starts with the kind of statement.\<close>

definition names_kind :: "string \<Rightarrow> finding \<Rightarrow> bool" where
  "names_kind k f = (take (length k) (message f) = k)"




text \<open>The positions of the text at which \<open>p\<close> starts, overlapping or not.\<close>

definition occurrences :: "string \<Rightarrow> string \<Rightarrow> nat" where
  "occurrences p s = length (filter (\<lambda>i. prefix p (drop i s)) [0..<length s])"

text \<open>The number that a string of decimal digits writes.\<close>

definition decimal_value :: "string \<Rightarrow> nat" where
  "decimal_value ds = foldl (\<lambda>n c. 10 * n + (of_char c - 48)) 0 ds"






section \<open>Properties of the lexer\<close>





















lemma lex_operator_Node_value:
  assumes "fst (lex_operator Node c cs) = Some t" and "ttype t = Operator"
  shows "tvalue t \<in> set two_char_ops"
proof (cases "take 2 (c # cs) \<in> set two_char_ops")
  case True
  then have "lex_operator Node c cs = (Some (mk_token Operator (take 2 (c # cs))), drop 2 (c # cs))"
    unfolding lex_operator_def Let_def by (simp only: variant.case if_True)
  with assms(1) have "t = mk_token Operator (take 2 (c # cs))" by simp
  with True show ?thesis by (simp add: mk_token_def)
next
  case False
  have "take 3 (c # cs) \<noteq> ''->>''"
  proof
    assume "take 3 (c # cs) = ''->>''"
    then have "take 2 (take 3 (c # cs)) = ''->''" by simp
    then have "take 2 (c # cs) = ''->''" by (simp only: take_take) simp
    with False show False by (simp add: two_char_ops_def)
  qed
  then have e: "(take 3 (c # cs) = ''->>'') = False" by blast
  have "lex_operator Node c cs = (Some (mk_token Symbol [c]), cs)"
    unfolding lex_operator_def Let_def using False by (simp only: variant.case if_False e)
  with assms(1) have "t = mk_token Symbol [c]" by simp
  with assms(2) show ?thesis by (simp add: mk_token_def)
qed

lemma lex_line_comment_type: "fst (lex_line_comment s) = Some t \<Longrightarrow> ttype t = Comment"
  by (auto simp: lex_line_comment_def mk_token_def split: option.splits)

lemma lex_block_comment_type: "fst (lex_block_comment s) = Some t \<Longrightarrow> ttype t = Comment"
  by (auto simp: lex_block_comment_def mk_token_def split: option.splits)

lemma lex_string_type: "fst (lex_string c cs) = Some t \<Longrightarrow> ttype t = StringT"
  by (cases "string_body cs") (auto simp: lex_string_def mk_token_def)

lemma lex_dollar_type: "lex_dollar c cs = Some r \<Longrightarrow> fst r = Some t \<Longrightarrow> ttype t = StringT"
  by (auto simp: lex_dollar_def mk_token_def split: option.splits)

lemma lex_number_type: "fst (lex_number s) = Some t \<Longrightarrow> ttype t = NumberT"
  by (auto simp: lex_number_def mk_token_def)

lemma lex_word_type: "fst (lex_word s) = Some t \<Longrightarrow> ttype t = Keyword \<or> ttype t = Identifier"
  by (auto simp: lex_word_def Let_def mk_token_def split: if_splits)

lemma lex_quoted_type: "fst (lex_quoted c cs) = Some t \<Longrightarrow> ttype t = Identifier"
  by (auto simp: lex_quoted_def mk_token_def)

lemma lex_step_Node_value:
  assumes "ttype t = Operator"
  shows "fst (lex_step Node c cs) = Some t \<longrightarrow> tvalue t \<in> set two_char_ops"
proof -
  have lc: "\<And>s. fst (lex_line_comment s) = Some t \<longrightarrow> tvalue t \<in> set two_char_ops"
    using lex_line_comment_type assms by fastforce
  have bc: "\<And>s. fst (lex_block_comment s) = Some t \<longrightarrow> tvalue t \<in> set two_char_ops"
    using lex_block_comment_type assms by fastforce
  have st: "fst (lex_string c cs) = Some t \<longrightarrow> tvalue t \<in> set two_char_ops"
    using lex_string_type assms by fastforce
  have dl: "\<And>r. lex_dollar c cs = Some r \<Longrightarrow> fst r = Some t \<longrightarrow> tvalue t \<in> set two_char_ops"
    using lex_dollar_type assms by fastforce
  have nu: "\<And>s. fst (lex_number s) = Some t \<longrightarrow> tvalue t \<in> set two_char_ops"
    using lex_number_type assms by fastforce
  have wo: "\<And>s. fst (lex_word s) = Some t \<longrightarrow> tvalue t \<in> set two_char_ops"
    using lex_word_type assms by fastforce
  have qu: "fst (lex_quoted c cs) = Some t \<longrightarrow> tvalue t \<in> set two_char_ops"
    using lex_quoted_type assms by fastforce
  have op: "fst (lex_operator Node c cs) = Some t \<longrightarrow> tvalue t \<in> set two_char_ops"
    using lex_operator_Node_value assms by blast
  have tail: "fst (lex_tail Node c cs) = Some t \<longrightarrow> tvalue t \<in> set two_char_ops"
    unfolding lex_tail_def
    apply (rule if_cases_rule, rule nu)
    apply (rule if_cases_rule, rule wo)
    apply (rule if_cases_rule, rule qu)
    apply (rule op)
    done
  show ?thesis
    unfolding lex_step_def
    apply (rule if_cases_rule, simp)
    apply (rule if_cases_rule, rule lc)
    apply (rule if_cases_rule, rule bc)
    apply (rule if_cases_rule, rule st)
    apply (cases "c = CHR ''$''")
     apply (cases "lex_dollar c cs")
      apply (simp_all add: tail dl)
    done
qed

lemma tokenize_Node_operators:
  "t \<in> set (tokenize_v Node s) \<Longrightarrow> ttype t = Operator \<Longrightarrow> tvalue t \<in> set two_char_ops"
proof (induction s rule: length_induct)
  case (1 s)
  show ?case
  proof (cases s)
    case Nil
    with "1.prems" show ?thesis by simp
  next
    case (Cons c cs)
    obtain x r where step: "lex_step Node c cs = (x, r)" by (cases "lex_step Node c cs")
    have len: "length r < length s"
      using lex_step_length [of Node c cs] step Cons by simp
    show ?thesis
    proof (cases x)
      case None
      with "1.prems" step Cons have "t \<in> set (tokenize_v Node r)" by simp
      with "1.IH" len "1.prems"(2) show ?thesis by blast
    next
      case (Some u)
      with "1.prems" step Cons have "t = u \<or> t \<in> set (tokenize_v Node r)" by simp
      then show ?thesis
      proof
        assume "t = u"
        then show ?thesis
          using lex_step_Node_value [OF "1.prems"(2), of c cs] step Some by simp
      next
        assume "t \<in> set (tokenize_v Node r)"
        with "1.IH" len "1.prems"(2) show ?thesis by blast
      qed
    qed
  qed
qed

text \<open>
  C1: the claim is that the lexer matches operators longest first, so that \<^verbatim>\<open>->>\<close> is one
  operator token. The node module tests the two-character operators before the
  three-character one: on \<^verbatim>\<open>a->>b\<close> it pushes the operator \<^verbatim>\<open>->\<close> and then the symbol
  \<^verbatim>\<open>>\<close>, and on no input does it push an operator token \<^verbatim>\<open>->>\<close>: its branch for the three
  characters is never reached. (The bundle's lexer tests the three characters first.)
\<close>

theorem tokenize_arrow_split:
  "tokenize ''a->>b'' =
     [mk_token Identifier ''a'', mk_token Operator ''->'', mk_token Symbol ''>'',
      mk_token Identifier ''b'']
   \<and> (\<forall>s. \<forall>t \<in> set (tokenize s). \<not> (ttype t = Operator \<and> tvalue t = ''->>''))"
proof -
  have e: "tokenize ''a->>b'' =
     [mk_token Identifier ''a'', mk_token Operator ''->'', mk_token Symbol ''>'',
      mk_token Identifier ''b'']"
    by code_simp
  have n: "''->>'' \<notin> set two_char_ops"
    by (simp add: two_char_ops_def)
  have "\<And>s t. t \<in> set (tokenize s) \<Longrightarrow> \<not> (ttype t = Operator \<and> tvalue t = ''->>'')"
    using tokenize_Node_operators n unfolding tokenize_def by metis
  with e show ?thesis by blast
qed

theorem tokenize_arrow_split_witness:
  "map tvalue (tokenize ''a->>b'') = [''a'', ''->'', ''>'', ''b'']
   \<and> list_all (\<lambda>t. \<not> (ttype t = Operator \<and> tvalue t = ''->>'')) (tokenize ''x ->> 1'')"
  using tokenize_arrow_split by (simp add: mk_token_def list_all_iff)

section \<open>Properties of the formatter\<close>

lemma newline_Some:
  "0 \<le> indent st \<Longrightarrow>
   newline st = Some (st\<lparr>out := trimEnd (out st) @ newline_char # concat (replicate (nat (indent st)) ''  ''),
                          lineStart := True\<rparr>)"
  by (simp add: newline_def repeat_indent_def)

lemma space_levels [simp]:
  "indent (space st) = indent st" "parenDepth (space st) = parenDepth st"
  "prevToken (space st) = prevToken st"
  by (simp_all add: space_def)

lemma emit_levels [simp]:
  "indent (emit s st) = indent st" "parenDepth (emit s st) = parenDepth st"
  "prevToken (emit s st) = prevToken st" "out (emit s st) = out st @ s"
  "lineStart (emit s st) = lineStart st"
  by (simp_all add: emit_def)

lemma fmt_comment_ok:
  "levels_ok st \<Longrightarrow> \<exists>s. fmt_comment st t = Some s \<and> levels_ok s"
  by (simp add: fmt_comment_def levels_ok_def newline_Some)

lemma fmt_lparen_ok:
  "levels_ok st \<Longrightarrow> \<exists>s. fmt_lparen st t nxt = Some s \<and> levels_ok s"
  by (simp add: fmt_lparen_def levels_ok_def newline_Some Let_def)

lemma fmt_rparen_ok:
  "levels_ok st \<Longrightarrow> \<exists>s. fmt_rparen v st t = Some s \<and> levels_ok s"
  by (simp add: fmt_rparen_def levels_ok_def newline_Some Let_def)

lemma fmt_comma_ok:
  "levels_ok st \<Longrightarrow> \<exists>s. fmt_comma st t = Some s \<and> levels_ok s"
  by (simp add: fmt_comma_def levels_ok_def newline_Some Let_def)

lemma fmt_semicolon_ok:
  "levels_ok st \<Longrightarrow> \<exists>s. fmt_semicolon st t = Some s \<and> levels_ok s"
  by (simp add: fmt_semicolon_def levels_ok_def)

lemma fmt_compound_ok:
  "levels_ok st \<Longrightarrow> \<exists>s. fmt_compound st c = Some s \<and> levels_ok s"
  by (simp add: fmt_compound_def levels_ok_def newline_Some)

lemma fmt_keyword_ok:
  "levels_ok st \<Longrightarrow> \<exists>s. fmt_keyword v st t = Some s \<and> levels_ok s"
  by (simp add: fmt_keyword_def levels_ok_def newline_Some)

lemma fmt_default_ok:
  "levels_ok st \<Longrightarrow> \<exists>s. fmt_default st t = Some s \<and> levels_ok s"
  by (simp add: fmt_default_def levels_ok_def Let_def)

lemma fmt_step_ok:
  assumes "levels_ok st"
  shows "\<exists>s skip. fmt_step v st t nxt = Some (s, skip) \<and> levels_ok s"
proof -
  have lift: "\<And>r b. \<exists>s. r = Some s \<and> levels_ok s \<Longrightarrow>
      \<exists>s skip. map_option (\<lambda>s. (s, b)) r = Some (s, skip) \<and> levels_ok s"
    by auto
  show ?thesis
    unfolding fmt_step_def
    apply (rule if_cases_rule, rule lift, rule fmt_comment_ok [OF assms])
    apply (rule if_cases_rule, rule lift, rule fmt_lparen_ok [OF assms])
    apply (rule if_cases_rule, rule lift, rule fmt_rparen_ok [OF assms])
    apply (rule if_cases_rule, rule lift, rule fmt_comma_ok [OF assms])
    apply (rule if_cases_rule, rule lift, rule fmt_semicolon_ok [OF assms])
    apply (cases "compound_of t nxt")
     apply (simp only: option.case)
     apply (rule if_cases_rule, rule lift, rule fmt_keyword_ok [OF assms])
     apply (rule lift, rule fmt_default_ok [OF assms])
    apply (simp only: option.case)
    apply (rule lift, rule fmt_compound_ok [OF assms])
    done
qed

lemma fmt_trace_ok:
  "levels_ok st \<Longrightarrow> s \<in> set (fmt_trace v st ts) \<Longrightarrow> levels_ok s"
proof (induction v st ts rule: fmt_trace.induct)
  case (1 v st)
  then show ?case by simp
next
  case (2 v st t ts)
  obtain st' skip where step: "fmt_step v st t (lookahead ts) = Some (st', skip)" "levels_ok st'"
    using fmt_step_ok [OF "2.prems"(1)] by blast
  from "2.prems"(2) step have "s = st \<or> s \<in> set (fmt_trace v st' (if skip then drop 1 ts else ts))"
    by simp
  then show ?case
    using "2.IH" [OF step(1) refl step(2)] "2.prems"(1) by blast
qed

lemma fmt_loop_ok:
  "levels_ok st \<Longrightarrow> fmt_loop v st ts = Some (last (fmt_trace v st ts))"
proof (induction v st ts rule: fmt_trace.induct)
  case (1 v st)
  then show ?case by simp
next
  case (2 v st t ts)
  obtain st' skip where step: "fmt_step v st t (lookahead ts) = Some (st', skip)" "levels_ok st'"
    using fmt_step_ok [OF "2.prems"(1)] by blast
  have ne: "fmt_trace v st' (if skip then drop 1 ts else ts) \<noteq> []"
    by (cases "if skip then drop 1 ts else ts") simp_all
  show ?case
    using "2.IH" [OF step(1) refl step(2)] step(1) ne by simp
qed

lemma levels_ok_init: "levels_ok init_state"
  by (simp add: levels_ok_def init_state_def)

lemma trimEnd_last: "trimEnd s \<noteq> [] \<Longrightarrow> \<not> is_space (last (trimEnd s))"
proof -
  assume "trimEnd s \<noteq> []"
  then have ne: "dropWhile is_space (rev s) \<noteq> []" by (simp add: trimEnd_def)
  then have "\<not> is_space (hd (dropWhile is_space (rev s)))" by (rule hd_dropWhile)
  then show ?thesis using ne by (simp add: trimEnd_def last_rev)
qed

lemma trim_last: "trim s \<noteq> [] \<Longrightarrow> \<not> is_space (last (trim s))"
  unfolding trim_def by (rule trimEnd_last)

lemma is_space_newline: "is_space newline_char"
  by (simp add: is_space_def newline_char_def)

text \<open>
  C8: throughout a call of \<^verbatim>\<open>format\<close> the paren depth and the indent level are never
  negative: this holds for the state at the head of every iteration of the token loop and
  for the state the loop ends in. The loop is never cut short by the RangeError of a
  negative \<^verbatim>\<open>repeat\<close> count: it returns the last state of the trace.
\<close>

theorem format_invariants:
  "(\<forall>s \<in> set (fmt_trace Node init_state (tokenize sql)). 0 \<le> parenDepth s \<and> 0 \<le> indent s)
   \<and> fmt_loop Node init_state (tokenize sql)
       = Some (last (fmt_trace Node init_state (tokenize sql)))"
  using fmt_trace_ok [OF levels_ok_init] fmt_loop_ok [OF levels_ok_init]
  by (auto simp: levels_ok_def)

theorem format_invariants_witness:
  "list_all (\<lambda>s. 0 \<le> parenDepth s \<and> 0 \<le> indent s)
     (fmt_trace Node init_state (tokenize ''a in (select 1 limit) )''))
   \<and> map (\<lambda>s. (parenDepth s, indent s))
        (fmt_trace Node init_state (tokenize ''a in (select 1 limit) )''))
     = [(0, 0), (0, 0), (0, 0), (1, 1), (1, 1), (1, 1), (1, 1), (0, 0), (0, 0)]"
proof -
  have "map (\<lambda>s. (parenDepth s, indent s))
        (fmt_trace Node init_state (tokenize ''a in (select 1 limit) )''))
     = [(0, 0), (0, 0), (0, 0), (1, 1), (1, 1), (1, 1), (1, 1), (0, 0), (0, 0)]"
    by code_simp
  then show ?thesis
    using format_invariants [of "''a in (select 1 limit) )''"] by (simp add: list_all_iff)
qed

text \<open>
  C7: for every input (the empty text and malformed SQL included) \<^verbatim>\<open>format\<close> returns a
  text that ends in exactly one newline: what stands before the final newline is empty or
  ends in a character that is neither whitespace nor a newline.
\<close>

theorem format_trailing_newline:
  "\<exists>body. format sql = Some (body @ [newline_char])
     \<and> (body = [] \<or> (\<not> is_space (last body) \<and> last body \<noteq> newline_char))"
proof -
  obtain st where "fmt_loop Node init_state (tokenize sql) = Some st"
    using fmt_loop_ok [OF levels_ok_init] by blast
  then have "format sql = Some (trim (out st) @ [newline_char])"
    by (simp add: format_def format_tokens_def)
  moreover have "trim (out st) = [] \<or> (\<not> is_space (last (trim (out st))) \<and> last (trim (out st)) \<noteq> newline_char)"
    using trim_last [of "out st"] is_space_newline by metis
  ultimately show ?thesis by blast
qed

theorem format_trailing_newline_witness:
  "(\<exists>body. format ''select  1 ;  '' = Some (body @ [newline_char])
      \<and> (body = [] \<or> (\<not> is_space (last body) \<and> last body \<noteq> newline_char)))
   \<and> format ''select  1 ;  '' = Some (''SELECT 1;'' @ [newline_char])
   \<and> format [] = Some [newline_char]"
proof -
  have "format ''select  1 ;  '' = Some (''SELECT 1;'' @ [newline_char])"
    and "format [] = Some [newline_char]"
    by code_simp+
  then show ?thesis
    using format_trailing_newline [of "''select  1 ;  ''"] by simp
qed

subsection \<open>The closing parenthesis\<close>

text \<open>
  C4: the claim is that a closing parenthesis only decrements the paren depth (floored at
  0) and never re-indents. The node module's loop has a statement for it: when the token
  before the parenthesis is one of the keywords \<^verbatim>\<open>LIMIT\<close>, \<^verbatim>\<open>OFFSET\<close>, \<^verbatim>\<open>ASC\<close>, \<^verbatim>\<open>DESC\<close>,
  the indent level is decremented (floored at 0) and a line break is put before the
  parenthesis. Amended: the paren depth is decremented, floored at 0; after one of these
  four keywords the indent level is decremented, floored at 0, and the parenthesis starts
  a new line at that indent; after any other token the indent level is unchanged and the
  parenthesis is appended to the output as it is.
\<close>

theorem rparen_step:
  assumes "is_symbol '')'' t" and "0 \<le> indent st" and "0 \<le> parenDepth st"
  shows "\<exists>st'. fmt_step Node st t nxt = Some (st', False)
     \<and> parenDepth st' = max 0 (parenDepth st - 1)
     \<and> (if reindent_before_rparen Node st
         then indent st' = max 0 (indent st - 1)
            \<and> out st' = trimEnd (out st) @ newline_char
                 # concat (replicate (nat (indent st')) ''  '') @ '')''
         else indent st' = indent st \<and> out st' = out st @ '')'')"
proof -
  from assms(1) have step: "fmt_step Node st t nxt = map_option (\<lambda>s. (s, False)) (fmt_rparen Node st t)"
    by (auto simp: fmt_step_def is_symbol_def)
  show ?thesis
  proof (cases "reindent_before_rparen Node st")
    case True
    then show ?thesis
      using assms(2,3) unfolding step
      by (simp add: fmt_rparen_def reindent_before_rparen_def newline_Some Let_def)
  next
    case False
    then show ?thesis
      using assms(2,3) unfolding step
      by (simp add: fmt_rparen_def reindent_before_rparen_def Let_def)
  qed
qed

theorem rparen_step_witness:
  "\<exists>st'. fmt_step Node
      \<lparr>out = ''(SELECT a DESC'', indent = 1, lineStart = False,
       prevToken = Some \<lparr>ttype = Keyword, tvalue = ''DESC'', original = Some ''desc''\<rparr>,
       parenDepth = 1\<rparr> (mk_token Symbol '')'') None = Some (st', False)
     \<and> parenDepth st' = 0 \<and> indent st' = 0
     \<and> out st' = ''(SELECT a DESC'' @ [newline_char] @ '')''"
  using rparen_step [of "mk_token Symbol '')''"
      "\<lparr>out = ''(SELECT a DESC'', indent = 1, lineStart = False,
        prevToken = Some \<lparr>ttype = Keyword, tvalue = ''DESC'', original = Some ''desc''\<rparr>,
        parenDepth = 1\<rparr>" None]
  by (auto simp: is_symbol_def mk_token_def reindent_before_rparen_def trimEnd_def is_space_def)

theorem rparen_reindent_counterexample:
  "map (\<lambda>s. (indent s, out s))
     (drop 4 (fmt_trace Node init_state (tokenize ''(select a desc)'')))
   = [(1, ''('' @ [newline_char] @ ''  SELECT a DESC''),
      (0, ''('' @ [newline_char] @ ''  SELECT a DESC'' @ [newline_char] @ '')'')]"
  by code_simp

subsection \<open>Formatting twice\<close>

lemma erase_simps [simp]:
  "ttype (erase t) = ttype t" "tvalue (erase t) = tvalue t"
  "is_keyword k (erase t) = is_keyword k t" "is_symbol k (erase t) = is_symbol k t"
  by (simp_all add: erase_def is_keyword_def is_symbol_def)


lemma erase_state_simps [simp]:
  "out (erase_state st) = out st" "indent (erase_state st) = indent st"
  "lineStart (erase_state st) = lineStart st" "parenDepth (erase_state st) = parenDepth st"
  "prevToken (erase_state st) = map_option erase (prevToken st)"
  by (simp_all add: erase_state_def)


























section \<open>Properties of the analyzer\<close>

lemmas token_eval = is_keyword_def is_symbol_def mk_token_def

lemma select_star_loop_elems: "set (select_star_loop ts) \<subseteq> {select_star_finding}"
  by (induction ts rule: select_star_loop.induct) (auto simp: push_if_def)

lemma select_star_loop_levels: "f \<in> set (select_star_loop ts) \<Longrightarrow> f = select_star_finding"
  using select_star_loop_elems by blast

lemma no_where_loop_elems: "g \<in> set (no_where_loop k f ts) \<Longrightarrow> g = f"
  by (induction ts) (auto split: if_splits)

lemma filter_error_select_star: "filter is_error (select_star_loop ts) = []"
  by (auto simp: filter_empty_conv is_error_def select_star_finding_def
      dest!: select_star_loop_levels)

lemma filter_error_no_where:
  "is_error f \<Longrightarrow> filter is_error (no_where_loop k f ts) = no_where_loop k f ts"
  using no_where_loop_elems by (auto simp: filter_id_conv)

lemma filter_error_push_if: "\<not> is_error f \<Longrightarrow> filter is_error (push_if b f) = []"
  by (simp add: push_if_def)

lemma filter_error_offset_rule:
  "(\<And>ds. \<not> is_error (mk ds)) \<Longrightarrow> filter is_error (offset_rule mk sql) = []"
  by (simp add: offset_rule_def push_if_def split: option.splits)

lemma finding_levels:
  "is_error update_finding" "is_error delete_finding"
  "\<not> is_error like_finding" "\<not> is_error not_in_finding" "\<not> is_error order_by_finding"
  "\<not> is_error (cast_finding n)" "\<not> is_error (offset_finding ds)"
  "\<not> is_error (offset_finding_bundle ds)" "\<not> is_error (join_finding n)"
  "\<not> is_error (join_finding_bundle n)" "\<not> is_error now_finding"
  "\<not> is_error now_finding_bundle" "\<not> is_error coalesce_finding"
  "\<not> is_error coalesce_finding_bundle" "\<not> is_error select_star_finding"
  by (simp_all add: is_error_def update_finding_def delete_finding_def like_finding_def
      not_in_finding_def order_by_finding_def cast_finding_def offset_finding_def
      offset_finding_bundle_def join_finding_def join_finding_bundle_def now_finding_def
      now_finding_bundle_def coalesce_finding_def coalesce_finding_bundle_def
      select_star_finding_def)

lemma analyze_errors:
  "filter is_error (analyze sql) =
     no_where_loop ''UPDATE'' update_finding (tokenize sql)
     @ no_where_loop ''DELETE'' delete_finding (tokenize sql)"
  by (simp add: analyze_def Let_def filter_error_select_star filter_error_no_where
      filter_error_push_if filter_error_offset_rule finding_levels)

lemma hasWhere_iff: "hasWhere ts = where_before_semicolon ts"
proof (induction ts)
  case Nil
  then show ?case by (simp add: where_before_semicolon_def)
next
  case (Cons t ts)
  show ?case
  proof (cases "is_symbol '';'' t")
    case True
    then have nk: "\<not> is_keyword ''WHERE'' t" by (auto simp: is_symbol_def is_keyword_def)
    have "\<not> where_before_semicolon (t # ts)"
      unfolding where_before_semicolon_def
    proof (intro notI, elim exE conjE)
      fix j assume j: "j < length (t # ts)" "is_keyword ''WHERE'' ((t # ts) ! j)"
        "\<forall>m < j. \<not> is_symbol '';'' ((t # ts) ! m)"
      show False
      proof (cases j)
        case 0
        with j(2) nk show False by simp
      next
        case (Suc n)
        with j(3) True show False by auto
      qed
    qed
    with True show ?thesis by simp
  next
    case ns: False
    show ?thesis
    proof (cases "is_keyword ''WHERE'' t")
      case True
      then have "where_before_semicolon (t # ts)"
        unfolding where_before_semicolon_def by (intro exI [of _ 0]) simp
      with True ns show ?thesis by simp
    next
      case False
      have "where_before_semicolon (t # ts) = where_before_semicolon ts"
      proof
        assume "where_before_semicolon (t # ts)"
        then obtain j where j: "j < length (t # ts)" "is_keyword ''WHERE'' ((t # ts) ! j)"
          "\<forall>m < j. \<not> is_symbol '';'' ((t # ts) ! m)"
          unfolding where_before_semicolon_def by blast
        with False obtain n where n: "j = Suc n" by (cases j) auto
        have "\<forall>m < n. \<not> is_symbol '';'' (ts ! m)"
          using j(3) n by (metis Suc_less_eq nth_Cons_Suc)
        with j n show "where_before_semicolon ts"
          unfolding where_before_semicolon_def by auto
      next
        assume "where_before_semicolon ts"
        then obtain n where n: "n < length ts" "is_keyword ''WHERE'' (ts ! n)"
          "\<forall>m < n. \<not> is_symbol '';'' (ts ! m)"
          unfolding where_before_semicolon_def by blast
        have "\<forall>m < Suc n. \<not> is_symbol '';'' ((t # ts) ! m)"
          using n(3) ns by (auto simp: nth_Cons')
        with n show "where_before_semicolon (t # ts)"
          unfolding where_before_semicolon_def by (intro exI [of _ "Suc n"]) simp
      qed
      with False ns Cons.IH show ?thesis by simp
    qed
  qed
qed

lemma no_where_loop_count:
  "length (no_where_loop k f ts) = length (filter (offending k ts) [0..<length ts])"
proof (induction ts)
  case Nil
  then show ?case by simp
next
  case (Cons t ts)
  have shift: "filter (offending k (t # ts)) (map Suc [0..<length ts])
      = map Suc (filter (offending k ts) [0..<length ts])"
  proof -
    have "offending k (t # ts) \<circ> Suc = offending k ts"
      by (auto simp: offending_def fun_eq_iff)
    then show ?thesis by (simp add: filter_map)
  qed
  have upt: "[0..<length (t # ts)] = 0 # map Suc [0..<length ts]"
    by (simp add: upt_conv_Cons map_Suc_upt del: upt_Suc)
  have head: "offending k (t # ts) 0 = (is_keyword k t \<and> \<not> hasWhere ts)"
    by (simp add: offending_def hasWhere_iff)
  have "length (no_where_loop k f (t # ts))
      = (if offending k (t # ts) 0 then 1 else 0) + length (no_where_loop k f ts)"
    using head by simp
  also have "\<dots> = (if offending k (t # ts) 0 then 1 else 0)
      + length (filter (offending k ts) [0..<length ts])"
    using Cons.IH by simp
  also have "\<dots> = length (filter (offending k (t # ts)) (0 # map Suc [0..<length ts]))"
    using shift by simp
  finally show ?case unfolding upt .
qed

text \<open>
  C2: the claim is that an input with a top-level \<^verbatim>\<open>UPDATE\<close> or \<^verbatim>\<open>DELETE\<close> statement that
  has no \<^verbatim>\<open>WHERE\<close> keyword before its semicolon (or the end of the input) gets exactly one
  error finding for that statement, naming the kind. The analyzer has no notion of a
  statement or of the top level: each of the two rules runs over the keyword tokens, and
  a statement that holds the keyword twice (\<^verbatim>\<open>FOR UPDATE\<close> in a subquery of an
  \<^verbatim>\<open>UPDATE\<close>) gets two error findings. Amended: for each kind, the error findings whose
  message names the kind are as many as the keyword tokens of that kind with no
  \<^verbatim>\<open>WHERE\<close> keyword between them and the next semicolon or the end of the input (so
  exactly one for a statement without \<^verbatim>\<open>WHERE\<close> that holds the keyword once), and every
  error finding names \<^verbatim>\<open>UPDATE\<close> or \<^verbatim>\<open>DELETE\<close>.
\<close>

theorem analyze_update_delete_errors:
  "length (filter (\<lambda>f. level f = Error \<and> names_kind ''UPDATE'' f) (analyze sql))
     = length (filter (offending ''UPDATE'' (tokenize sql)) [0..<length (tokenize sql)])
   \<and> length (filter (\<lambda>f. level f = Error \<and> names_kind ''DELETE'' f) (analyze sql))
     = length (filter (offending ''DELETE'' (tokenize sql)) [0..<length (tokenize sql)])
   \<and> list_all (\<lambda>f. names_kind ''UPDATE'' f \<or> names_kind ''DELETE'' f)
        (filter (\<lambda>f. level f = Error) (analyze sql))"
proof -
  let ?u = "no_where_loop ''UPDATE'' update_finding (tokenize sql)"
  let ?d = "no_where_loop ''DELETE'' delete_finding (tokenize sql)"
  have errs: "filter (\<lambda>f. level f = Error) (analyze sql) = ?u @ ?d"
    using analyze_errors [of sql] by (simp add: is_error_def [abs_def])
  have split: "\<And>k. filter (\<lambda>f. level f = Error \<and> names_kind k f) (analyze sql)
      = filter (names_kind k) (?u @ ?d)"
    using errs by (metis filter_filter)
  have nu: "names_kind ''UPDATE'' update_finding" "\<not> names_kind ''UPDATE'' delete_finding"
    and nd: "names_kind ''DELETE'' delete_finding" "\<not> names_kind ''DELETE'' update_finding"
    by (simp_all add: names_kind_def update_finding_def delete_finding_def)
  have fu: "filter (names_kind ''UPDATE'') ?u = ?u" "filter (names_kind ''UPDATE'') ?d = []"
    and fd: "filter (names_kind ''DELETE'') ?d = ?d" "filter (names_kind ''DELETE'') ?u = []"
    using nu nd no_where_loop_elems by (auto simp: filter_id_conv filter_empty_conv)
  have "list_all (\<lambda>f. names_kind ''UPDATE'' f \<or> names_kind ''DELETE'' f) (?u @ ?d)"
    using nu nd no_where_loop_elems by (auto simp: list_all_iff)
  then show ?thesis
    unfolding split errs using fu fd
    by (simp add: no_where_loop_count)
qed

theorem analyze_update_delete_errors_witness:
  "length (filter (\<lambda>f. level f = Error \<and> names_kind ''UPDATE'' f)
             (analyze ''UPDATE t SET x = 1; DELETE FROM u WHERE y''))
     = 1
   \<and> length (filter (\<lambda>f. level f = Error \<and> names_kind ''DELETE'' f)
             (analyze ''UPDATE t SET x = 1; DELETE FROM u WHERE y''))
     = 0"
proof -
  have toks: "tokenize ''UPDATE t SET x = 1; DELETE FROM u WHERE y'' =
      [\<lparr>ttype = Keyword, tvalue = ''UPDATE'', original = Some ''UPDATE''\<rparr>,
       mk_token Identifier ''t'',
       \<lparr>ttype = Keyword, tvalue = ''SET'', original = Some ''SET''\<rparr>,
       mk_token Identifier ''x'', mk_token Symbol ''='', mk_token NumberT ''1'',
       mk_token Symbol '';'',
       \<lparr>ttype = Keyword, tvalue = ''DELETE'', original = Some ''DELETE''\<rparr>,
       \<lparr>ttype = Keyword, tvalue = ''FROM'', original = Some ''FROM''\<rparr>,
       mk_token Identifier ''u'',
       \<lparr>ttype = Keyword, tvalue = ''WHERE'', original = Some ''WHERE''\<rparr>,
       mk_token Identifier ''y'']"
    by code_simp
  have upt: "[0..<12] = [0, 1, 2, 3, 4, 5, 6, 7, 8, 9, 10, 11]"
    by (simp add: upt_rec)
  show ?thesis
    using analyze_update_delete_errors [of "''UPDATE t SET x = 1; DELETE FROM u WHERE y''"]
    unfolding toks
    by (simp add: offending_def [abs_def] hasWhere_iff [symmetric] upt token_eval)
qed

theorem analyze_two_errors_counterexample:
  "filter (\<lambda>f. level f = Error) (analyze ''UPDATE a SET x = (SELECT y FROM b FOR UPDATE)'')
     = [update_finding, update_finding]"
proof -
  have toks: "tokenize ''UPDATE a SET x = (SELECT y FROM b FOR UPDATE)'' =
      [\<lparr>ttype = Keyword, tvalue = ''UPDATE'', original = Some ''UPDATE''\<rparr>,
       mk_token Identifier ''a'',
       \<lparr>ttype = Keyword, tvalue = ''SET'', original = Some ''SET''\<rparr>,
       mk_token Identifier ''x'', mk_token Symbol ''='', mk_token Symbol ''('',
       \<lparr>ttype = Keyword, tvalue = ''SELECT'', original = Some ''SELECT''\<rparr>,
       mk_token Identifier ''y'',
       \<lparr>ttype = Keyword, tvalue = ''FROM'', original = Some ''FROM''\<rparr>,
       mk_token Identifier ''b'',
       \<lparr>ttype = Keyword, tvalue = ''FOR'', original = Some ''FOR''\<rparr>,
       \<lparr>ttype = Keyword, tvalue = ''UPDATE'', original = Some ''UPDATE''\<rparr>,
       mk_token Symbol '')'']"
    by code_simp
  show ?thesis
    using analyze_errors [of "''UPDATE a SET x = (SELECT y FROM b FOR UPDATE)''"]
    unfolding toks by (simp add: is_error_def [abs_def] token_eval)
qed

subsection \<open>The offset rule\<close>

lemma in_push_if: "b \<Longrightarrow> f \<in> set (push_if b f)"
  by (simp add: push_if_def)

lemma offset_rule_in:
  "offset_match sql = Some ds \<Longrightarrow> 1000 < parseInt ds \<Longrightarrow> mk ds \<in> set (offset_rule mk sql)"
  by (simp add: offset_rule_def push_if_def)

text \<open>
  C6: the claim is that every input containing \<^verbatim>\<open>OFFSET\<close> and an integer above 1000 gets
  a warning that embeds the integer. The analyzer takes the leftmost match of the pattern
  only (\<^verbatim>\<open>sql.match\<close> without the flag \<^verbatim>\<open>g\<close>), so an input whose first \<^verbatim>\<open>OFFSET\<close> is small
  gets no warning for a later large one. Amended: when the leftmost match of the pattern
  \<^verbatim>\<open>OFFSET\<close>, whitespace, digits (letters in either case) captures digits whose value is
  above 1000, the result holds a finding of level \<^verbatim>\<open>warn\<close> whose message embeds these
  digits; so it does for \<^verbatim>\<open>SELECT * FROM t OFFSET 5000\<close>.
\<close>

theorem analyze_large_offset:
  assumes "offset_match sql = Some ds" and "1000 < parseInt ds"
  shows "\<exists>f \<in> set (analyze sql). level f = Warn \<and> sublist ds (message f)"
proof -
  have "offset_finding ds \<in> set (analyze sql)"
    using offset_rule_in [OF assms, of offset_finding] by (simp add: analyze_def Let_def)
  moreover have "level (offset_finding ds) = Warn"
    by (simp add: offset_finding_def)
  moreover have "sublist ds (message (offset_finding ds))"
  proof -
    obtain rest where "message (offset_finding ds) = ''Large OFFSET ('' @ ds @ rest"
      by (simp add: offset_finding_def)
    then show ?thesis by (simp only: sublist_appendI)
  qed
  ultimately show ?thesis by blast
qed

theorem analyze_large_offset_witness:
  "\<exists>f \<in> set (analyze ''SELECT * FROM t OFFSET 5000''). level f = Warn \<and> sublist ''5000'' (message f)"
proof -
  have "offset_match ''SELECT * FROM t OFFSET 5000'' = Some ''5000''"
    and "1000 < parseInt ''5000''"
    by code_simp+
  then show ?thesis by (rule analyze_large_offset)
qed

theorem analyze_offset_first_match_counterexample:
  "analyze ''SELECT 1 OFFSET 5; SELECT 2 OFFSET 5000'' = []"
proof -
  have toks: "tokenize ''SELECT 1 OFFSET 5; SELECT 2 OFFSET 5000'' =
      [\<lparr>ttype = Keyword, tvalue = ''SELECT'', original = Some ''SELECT''\<rparr>,
       mk_token NumberT ''1'',
       \<lparr>ttype = Keyword, tvalue = ''OFFSET'', original = Some ''OFFSET''\<rparr>,
       mk_token NumberT ''5'', mk_token Symbol '';'',
       \<lparr>ttype = Keyword, tvalue = ''SELECT'', original = Some ''SELECT''\<rparr>,
       mk_token NumberT ''2'',
       \<lparr>ttype = Keyword, tvalue = ''OFFSET'', original = Some ''OFFSET''\<rparr>,
       mk_token NumberT ''5000'']"
    by code_simp
  show ?thesis
    unfolding analyze_def Let_def toks by code_simp
qed

subsection \<open>The cast rule\<close>

lemma occurrences_Cons:
  "occurrences p (c # s) = (if prefix p (c # s) then 1 else 0) + occurrences p s"
proof -
  have upt: "[0..<length (c # s)] = 0 # map Suc [0..<length s]"
    by (simp add: upt_conv_Cons map_Suc_upt del: upt_Suc)
  have "(\<lambda>i. prefix p (drop i (c # s))) \<circ> Suc = (\<lambda>i. prefix p (drop i s))"
    by (simp add: fun_eq_iff)
  then have "filter (\<lambda>i. prefix p (drop i (c # s))) (map Suc [0..<length s])
      = map Suc (filter (\<lambda>i. prefix p (drop i s)) [0..<length s])"
    by (simp add: filter_map)
  then show ?thesis
    unfolding occurrences_def upt by simp
qed

lemma occurrences_Nil: "occurrences p [] = 0"
  by (simp add: occurrences_def)

lemma not_sublist_Cons: "\<not> sublist p (c # s) \<Longrightarrow> \<not> sublist p s"
  by (meson sublist_Cons_right)

lemma castCount_occurrences:
  "\<not> sublist '':::'' s \<Longrightarrow> castCount s = occurrences ''::'' s"
proof (induction s rule: castCount.induct)
  case (1 c d cs)
  have tl: "\<not> sublist '':::'' (d # cs)"
    using "1.prems" by (rule not_sublist_Cons)
  then have tl2: "\<not> sublist '':::'' cs"
    by (rule not_sublist_Cons)
  show ?case
  proof (cases "c = CHR '':'' \<and> d = CHR '':''")
    case True
    have "\<not> prefix '':::'' (c # d # cs)"
      using "1.prems" by (rule contrapos_nn) (rule prefix_imp_sublist)
    with True have "\<not> prefix ''::'' (d # cs)"
      by (cases cs) auto
    then have oc: "occurrences ''::'' (c # d # cs) = Suc (occurrences ''::'' cs)"
      using True by (simp add: occurrences_Cons)
    have cc: "castCount (c # d # cs) = Suc (castCount cs)"
      using True by simp
    show ?thesis
      unfolding cc oc using "1.IH"(1) True tl2 by blast
  next
    case False
    then have "\<not> prefix ''::'' (c # d # cs)" by auto
    then have oc: "occurrences ''::'' (c # d # cs) = occurrences ''::'' (d # cs)"
      by (simp only: occurrences_Cons [of _ c] if_False add_0)
    have cc: "castCount (c # d # cs) = castCount (d # cs)"
      using False by auto
    show ?thesis
      unfolding cc oc using "1.IH"(2) False tl by blast
  qed
qed (simp_all add: occurrences_Cons occurrences_Nil)

lemma suffix_cast_tail: "suffix cast_tail m \<Longrightarrow> take 2 (rev m) = ''.s''"
  by (auto simp: suffix_def cast_tail_def)

lemma tails:
  "take 2 (rev (message select_star_finding)) \<noteq> ''.s''"
  "take 2 (rev (message update_finding)) \<noteq> ''.s''"
  "take 2 (rev (message delete_finding)) \<noteq> ''.s''"
  "take 2 (rev (message like_finding)) \<noteq> ''.s''"
  "take 2 (rev (message not_in_finding)) \<noteq> ''.s''"
  "take 2 (rev (message order_by_finding)) \<noteq> ''.s''"
  "take 2 (rev (message (offset_finding ds))) \<noteq> ''.s''"
  "take 2 (rev (message (join_finding n))) \<noteq> ''.s''"
  "take 2 (rev (message now_finding)) \<noteq> ''.s''"
  "take 2 (rev (message coalesce_finding)) \<noteq> ''.s''"
  by (simp_all add: select_star_finding_def update_finding_def delete_finding_def
      like_finding_def not_in_finding_def order_by_finding_def offset_finding_def
      join_finding_def now_finding_def coalesce_finding_def)

lemma not_cast_push_if:
  "take 2 (rev (message f)) \<noteq> ''.s'' \<Longrightarrow> g \<in> set (push_if b f) \<Longrightarrow> \<not> suffix cast_tail (message g)"
  using suffix_cast_tail by (auto simp: push_if_def split: if_splits)

lemma not_cast_offset_rule:
  "g \<in> set (offset_rule offset_finding sql) \<Longrightarrow> \<not> suffix cast_tail (message g)"
  using suffix_cast_tail tails(7)
  by (auto simp: offset_rule_def push_if_def split: option.splits if_splits)

lemma not_cast_select_star:
  "g \<in> set (select_star_loop ts) \<Longrightarrow> \<not> suffix cast_tail (message g)"
  using suffix_cast_tail tails(1) select_star_loop_levels by blast

lemma not_cast_no_where:
  "take 2 (rev (message f)) \<noteq> ''.s'' \<Longrightarrow> g \<in> set (no_where_loop k f ts)
     \<Longrightarrow> \<not> suffix cast_tail (message g)"
  using suffix_cast_tail no_where_loop_elems by blast

lemma decimal_value_snoc:
  "decimal_value (ds @ [c]) = 10 * decimal_value ds + (of_char c - 48)"
  by (simp add: decimal_value_def)

lemma digit_char: "n < 10 \<Longrightarrow> is_digit (char_of (48 + n)) \<and> (of_char (char_of (48 + n)) :: nat) = 48 + n"
  by (simp add: is_digit_def Let_def)

lemma show_nat_decimal:
  "show_nat n \<noteq> [] \<and> list_all is_digit (show_nat n) \<and> decimal_value (show_nat n) = n"
proof (induction n rule: show_nat.induct)
  case (1 n)
  show ?case
  proof (cases "n < 10")
    case True
    then show ?thesis
      using digit_char [of n] by (simp add: decimal_value_def show_nat.simps [of n] del: show_nat.simps)
  next
    case False
    have m: "n mod 10 < 10" by simp
    have eq: "show_nat n = show_nat (n div 10) @ [char_of (48 + n mod 10)]"
      using False by (subst show_nat.simps) simp
    have ih: "show_nat (n div 10) \<noteq> []" "list_all is_digit (show_nat (n div 10))"
      "decimal_value (show_nat (n div 10)) = n div 10"
      using "1.IH" [OF False] by blast+
    have dc: "is_digit (char_of (48 + n mod 10))"
      and dv: "(of_char (char_of (48 + n mod 10)) :: nat) - 48 = n mod 10"
      using digit_char [OF m] by simp_all
    have "decimal_value (show_nat n) = 10 * (n div 10) + n mod 10"
      unfolding eq decimal_value_snoc ih(3) dv ..
    then have v: "decimal_value (show_nat n) = n" by presburger
    have d: "list_all is_digit (show_nat n)"
      unfolding eq using ih(2) dc by (simp del: show_nat.simps)
    have e: "show_nat n \<noteq> []" unfolding eq by (simp del: show_nat.simps)
    show ?thesis by (intro conjI) (rule e, rule d, rule v)
  qed
qed

lemma show_nat_leading:
  "n \<noteq> 0 \<Longrightarrow> hd (show_nat n) \<noteq> CHR ''0''"
proof (induction n rule: show_nat.induct)
  case (1 n)
  show ?case
  proof (cases "n < 10")
    case True
    have "(of_char (char_of (48 + n)) :: nat) \<noteq> of_char CHR ''0''"
      using digit_char [OF True] "1.prems" by simp
    then have "char_of (48 + n) \<noteq> CHR ''0''" by metis
    then show ?thesis
      using True by (simp add: show_nat.simps [of n] del: show_nat.simps)
  next
    case False
    have eq: "show_nat n = show_nat (n div 10) @ [char_of (48 + n mod 10)]"
      using False by (subst show_nat.simps) simp
    have ne: "show_nat (n div 10) \<noteq> []"
      using show_nat_decimal by blast
    have "n div 10 \<noteq> 0" using False by simp
    then have "hd (show_nat (n div 10)) \<noteq> CHR ''0''"
      using "1.IH" [OF False] by blast
    then show ?thesis
      unfolding eq using ne by (simp del: show_nat.simps)
  qed
qed

lemma castCount_not_colon: "c \<noteq> CHR '':'' \<Longrightarrow> castCount (c # s) = castCount s"
  by (cases s) simp_all

lemma castCount_single: "r = [] \<or> hd r \<noteq> CHR '':'' \<Longrightarrow> castCount (CHR '':'' # r) = castCount r"
  by (cases r) auto

lemma castCount_run_aux:
  assumes "r = [] \<or> hd r \<noteq> CHR '':''"
  shows "castCount (replicate k CHR '':'' @ r) = k div 2 + castCount r
     \<and> castCount (replicate (Suc k) CHR '':'' @ r) = Suc k div 2 + castCount r"
proof (induction k)
  case 0
  then show ?case using castCount_single [OF assms] by simp
next
  case (Suc k)
  have "castCount (replicate (Suc (Suc k)) CHR '':'' @ r)
      = Suc (castCount (replicate k CHR '':'' @ r))"
    by simp
  with Suc show ?case by simp
qed

lemma castCount_run:
  "r = [] \<or> hd r \<noteq> CHR '':'' \<Longrightarrow> castCount (replicate k CHR '':'' @ r) = k div 2 + castCount r"
  using castCount_run_aux by blast

text \<open>
  C10: the rule counts the matches of \<^verbatim>\<open>::\<close> as the global match does, from left to
  right and without overlap: a character other than a colon adds nothing, and a run of
  \<open>k\<close> colons adds \<open>k div 2\<close>. When this count is more than 3, the result of
  \<^verbatim>\<open>analyze\<close> holds a finding of level \<^verbatim>\<open>info\<close> whose message is the count, written in
  decimal digits without a leading zero, followed by the fixed text; with a count of 3
  or less no finding of the result has a message that ends in this text. In a text
  without three colons in a row the count is the number of positions at which \<^verbatim>\<open>::\<close>
  starts; in \<^verbatim>\<open>:::::\<close> the substring starts at 4 positions, the count is 2 and
  nothing is reported.
\<close>

theorem analyze_cast_count:
  "(3 < castCount sql \<longrightarrow>
      (\<exists>f \<in> set (analyze sql). level f = Info \<and> message f = show_nat (castCount sql) @ cast_tail))
   \<and> (castCount sql \<le> 3 \<longrightarrow>
      (\<forall>f \<in> set (analyze sql). \<not> suffix cast_tail (message f)))
   \<and> show_nat n \<noteq> [] \<and> list_all is_digit (show_nat n) \<and> decimal_value (show_nat n) = n
   \<and> (n \<noteq> 0 \<longrightarrow> hd (show_nat n) \<noteq> CHR ''0'')
   \<and> castCount [] = 0
   \<and> (c \<noteq> CHR '':'' \<longrightarrow> castCount (c # s) = castCount s)
   \<and> (r = [] \<or> hd r \<noteq> CHR '':'' \<longrightarrow>
        castCount (replicate k CHR '':'' @ r) = k div 2 + castCount r)
   \<and> (\<not> sublist '':::'' sql \<longrightarrow> castCount sql = occurrences ''::'' sql)"
proof -
  have a: "3 < castCount sql \<longrightarrow>
      (\<exists>f \<in> set (analyze sql). level f = Info \<and> message f = show_nat (castCount sql) @ cast_tail)"
  proof
    assume "3 < castCount sql"
    then have "cast_finding (castCount sql) \<in> set (analyze sql)"
      by (simp add: analyze_def Let_def push_if_def)
    then show "\<exists>f \<in> set (analyze sql). level f = Info \<and> message f = show_nat (castCount sql) @ cast_tail"
      by (rule bexI [rotated]) (simp add: cast_finding_def del: show_nat.simps)
  qed
  have b: "castCount sql \<le> 3 \<longrightarrow> (\<forall>f \<in> set (analyze sql). \<not> suffix cast_tail (message f))"
  proof (intro impI ballI)
    fix f assume le: "castCount sql \<le> 3" and "f \<in> set (analyze sql)"
    then consider
        "f \<in> set (select_star_loop (tokenize sql))"
      | "f \<in> set (no_where_loop ''UPDATE'' update_finding (tokenize sql))"
      | "f \<in> set (no_where_loop ''DELETE'' delete_finding (tokenize sql))"
      | b where "f \<in> set (push_if b like_finding)"
      | b where "f \<in> set (push_if b not_in_finding)"
      | b where "f \<in> set (push_if b order_by_finding)"
      | "f \<in> set (offset_rule offset_finding sql)"
      | b where "f \<in> set (push_if b (join_finding (joinCount (tokenize sql))))"
      | b where "f \<in> set (push_if b now_finding)"
      | b where "f \<in> set (push_if b coalesce_finding)"
      unfolding analyze_def Let_def set_append Un_iff
      by (auto simp: push_if_def [of "3 < castCount sql"] push_if_def [of False])
    then show "\<not> suffix cast_tail (message f)"
      using not_cast_select_star not_cast_no_where [OF tails(2)] not_cast_no_where [OF tails(3)]
        not_cast_push_if [OF tails(4)] not_cast_push_if [OF tails(5)]
        not_cast_push_if [OF tails(6)] not_cast_offset_rule not_cast_push_if [OF tails(8)]
        not_cast_push_if [OF tails(9)] not_cast_push_if [OF tails(10)]
      by cases blast+
  qed
  have c: "show_nat n \<noteq> []" "list_all is_digit (show_nat n)" "decimal_value (show_nat n) = n"
    using show_nat_decimal [of n] by blast+
  have d: "n \<noteq> 0 \<longrightarrow> hd (show_nat n) \<noteq> CHR ''0''"
    using show_nat_leading by blast
  have e: "castCount [] = 0" by simp
  have f: "c \<noteq> CHR '':'' \<longrightarrow> castCount (c # s) = castCount s"
    using castCount_not_colon by blast
  have g: "r = [] \<or> hd r \<noteq> CHR '':'' \<longrightarrow>
        castCount (replicate k CHR '':'' @ r) = k div 2 + castCount r"
    using castCount_run by blast
  have h: "\<not> sublist '':::'' sql \<longrightarrow> castCount sql = occurrences ''::'' sql"
    using castCount_occurrences by blast
  show ?thesis
    by (intro conjI) (rule a, rule b, rule c(1), rule c(2), rule c(3), rule d, rule e, rule f,
      rule g, rule h)
qed

theorem analyze_cast_count_witness:
  "(\<exists>f \<in> set (analyze ''a::b::c::d::e'').
       level f = Info \<and> message f = ''4'' @ cast_tail)
   \<and> list_all (\<lambda>f. \<not> suffix cast_tail (message f)) (analyze ''select a::b, now() from t'')
   \<and> decimal_value (show_nat 120) = 120 \<and> hd (show_nat 120) \<noteq> CHR ''0''
   \<and> castCount '':::::'' = 2
   \<and> occurrences ''::'' ''a::b::c::d::e'' = 4"
proof -
  have v: "castCount ''a::b::c::d::e'' = 4"
    and w: "castCount ''select a::b, now() from t'' = 1"
    and n: "\<not> sublist '':::'' ''a::b::c::d::e''"
    and sh: "show_nat 4 = ''4''"
    by code_simp+
  have r: "replicate 5 CHR '':'' @ [] = '':::::''"
    by (simp add: numeral_eq_Suc)
  have "castCount '':::::'' = 2"
    using analyze_cast_count [of "[]" 0 "CHR ''a''" "[]" "[]" 5] unfolding r by simp
  moreover have "\<exists>f \<in> set (analyze ''a::b::c::d::e'').
       level f = Info \<and> message f = ''4'' @ cast_tail"
    and "occurrences ''::'' ''a::b::c::d::e'' = 4"
    using analyze_cast_count [of "''a::b::c::d::e''" 0 "CHR ''a''" "[]" "[]" 0] n
    unfolding v sh by (simp_all del: show_nat.simps)
  moreover have "list_all (\<lambda>f. \<not> suffix cast_tail (message f)) (analyze ''select a::b, now() from t'')"
    using analyze_cast_count [of "''select a::b, now() from t''" 0 "CHR ''a''" "[]" "[]" 0]
    unfolding w by (simp add: list_all_iff del: show_nat.simps)
  moreover have "decimal_value (show_nat 120) = 120 \<and> hd (show_nat 120) \<noteq> CHR ''0''"
    using analyze_cast_count [of "[]" 120 "CHR ''a''" "[]" "[]" 0]
    by (simp del: show_nat.simps)
  ultimately show ?thesis by blast
qed

theorem analyze_cast_overlap_counterexample:
  "occurrences ''::'' '':::::'' = 4 \<and> analyze '':::::'' = []"
  by code_simp

section \<open>The node module and the bundle\<close>

subsection \<open>The two lexers\<close>




lemma suffix_drop_Cons: "suffix (drop n (c # cs)) (c # cs)"
  by (rule suffix_drop)












subsection \<open>The two formatters\<close>






text \<open>Every branch of the loop body ends by storing the token it processed.\<close>

lemma newline_prev: "newline st = Some s \<Longrightarrow> prevToken s = prevToken st"
  by (auto simp: newline_def split: option.splits)









subsection \<open>The two analyzers\<close>




lemma show_nat_append_ne: "\<not> is_digit c \<Longrightarrow> show_nat n @ t \<noteq> c # u"
proof -
  assume c: "\<not> is_digit c"
  obtain d ds where d: "show_nat n = d # ds"
    using show_nat_decimal [of n] by (cases "show_nat n") (auto simp del: show_nat.simps)
  then have "is_digit d"
    using show_nat_decimal [of n] by (simp del: show_nat.simps)
  with c d show ?thesis by (auto simp del: show_nat.simps)
qed






































end
